theory Spec2Isabelle
  imports Main "HOL-Library.Word"
begin

unbundle bit_operations_syntax

section \<open>The bit vector of \<^verbatim>\<open>algorithms/bit_vector.h\<close>\<close>

subsection \<open>Data model\<close>

text \<open>
  The C++ types of the header on an LP64 target: \<^verbatim>\<open>size_t\<close> is an unsigned 64-bit
  integer whose arithmetic wraps around, \<^verbatim>\<open>unsigned char\<close> has 8 bits, and \<^verbatim>\<open>int\<close>
  (the type of the literal \<^verbatim>\<open>1\<close> and of every mask expression) has 32 bits.
\<close>

type_synonym size_t = "64 word"
type_synonym uchar = "8 word"
type_synonym cint = "32 word"

text \<open>
  \<^verbatim>\<open>class bit_vector { std::vector<unsigned char> data; size_t num_bits; ... }\<close>
\<close>

record bit_vector =
  data :: "uchar list"
  num_bits :: size_t

definition BITS_PER_BYTE :: size_t where
  "BITS_PER_BYTE = 8"

text \<open>
  The class itself throws \<^verbatim>\<open>std::out_of_range\<close>; the \<^verbatim>\<open>std::string\<close> that
  \<^verbatim>\<open>to_string\<close> builds throws \<^verbatim>\<open>std::length_error\<close> when it is asked for more
  characters than \<^verbatim>\<open>std::string::max_size()\<close>. A member function either returns a
  value, or throws (the object is then in the state it had at the \<^verbatim>\<open>throw\<close>), or
  indexes \<^verbatim>\<open>data\<close> beyond its length: \<^verbatim>\<open>std::vector::operator[]\<close> does no bounds
  check, the behaviour of the program is then undefined, and the model says so with the
  outcome \<open>Undefined\<close>, which carries neither a value nor a state.
\<close>

datatype exn = out_of_range | length_error

datatype 'a outcome = Returns 'a bit_vector | Throws exn bit_vector | Undefined

subsection \<open>Construction\<close>

text \<open>
  \<^verbatim>\<open>bit_vector(size_t size) : num_bits(size)
    { data.resize((size + BITS_PER_BYTE - 1) / BITS_PER_BYTE, 0); }\<close>
  The arithmetic is that of \<^verbatim>\<open>size_t\<close>: the sum wraps around. Memory is taken to be
  unbounded, so \<^verbatim>\<open>resize\<close> itself does not fail; the number of bytes it is asked for
  is below \<open>2^61\<close>, within \<^verbatim>\<open>max_size()\<close> of the vector.
\<close>

definition bit_vector_ctor :: "size_t \<Rightarrow> bit_vector" where
  "bit_vector_ctor sz =
     \<lparr>data = replicate (unat ((sz + BITS_PER_BYTE - 1) div BITS_PER_BYTE)) 0,
      num_bits = sz\<rparr>"

subsection \<open>Single-bit operations\<close>

text \<open>
  \<^verbatim>\<open>1 << (pos % BITS_PER_BYTE)\<close> is an \<^verbatim>\<open>int\<close>. In \<^verbatim>\<open>data[i] |= m\<close> the byte is
  promoted to \<^verbatim>\<open>int\<close> (zero extension), combined with the mask, and the result is
  converted back to \<^verbatim>\<open>unsigned char\<close> (the low 8 bits); \<open>ucast\<close> is both conversions.
\<close>

definition set_bv :: "bit_vector \<Rightarrow> size_t \<Rightarrow> unit outcome" where
  "set_bv v pos =
     (if pos \<ge> num_bits v then Throws out_of_range v
      else let i = unat (pos div BITS_PER_BYTE);
               m = (push_bit (unat (pos mod BITS_PER_BYTE)) 1 :: cint)
           in if i < length (data v)
              then Returns () (v\<lparr>data := (data v)[i := ucast ((ucast (data v ! i) :: cint) OR m)]\<rparr>)
              else Undefined)"

definition clear :: "bit_vector \<Rightarrow> size_t \<Rightarrow> unit outcome" where
  "clear v pos =
     (if pos \<ge> num_bits v then Throws out_of_range v
      else let i = unat (pos div BITS_PER_BYTE);
               m = (push_bit (unat (pos mod BITS_PER_BYTE)) 1 :: cint)
           in if i < length (data v)
              then Returns () (v\<lparr>data := (data v)[i := ucast ((ucast (data v ! i) :: cint) AND NOT m)]\<rparr>)
              else Undefined)"

definition toggle :: "bit_vector \<Rightarrow> size_t \<Rightarrow> unit outcome" where
  "toggle v pos =
     (if pos \<ge> num_bits v then Throws out_of_range v
      else let i = unat (pos div BITS_PER_BYTE);
               m = (push_bit (unat (pos mod BITS_PER_BYTE)) 1 :: cint)
           in if i < length (data v)
              then Returns () (v\<lparr>data := (data v)[i := ucast ((ucast (data v ! i) :: cint) XOR m)]\<rparr>)
              else Undefined)"

definition test :: "bit_vector \<Rightarrow> size_t \<Rightarrow> bool outcome" where
  "test v pos =
     (if pos \<ge> num_bits v then Throws out_of_range v
      else let i = unat (pos div BITS_PER_BYTE);
               m = (push_bit (unat (pos mod BITS_PER_BYTE)) 1 :: cint)
           in if i < length (data v)
              then Returns (((ucast (data v ! i) :: cint) AND m) \<noteq> 0) v
              else Undefined)"

definition size_bv :: "bit_vector \<Rightarrow> size_t outcome" where
  "size_bv v = Returns (num_bits v) v"

subsection \<open>The two loops\<close>

text \<open>
  \<^verbatim>\<open>for (size_t i = 0; i < num_bits; ++i) { if (test(i)) ++count; }\<close>
  An exception of \<^verbatim>\<open>test\<close> is not caught and leaves the loop.
\<close>

function count_loop :: "bit_vector \<Rightarrow> size_t \<Rightarrow> size_t \<Rightarrow> size_t outcome" where
  "count_loop v i cnt =
     (if i < num_bits v then
        (case test v i of
           Returns b v' \<Rightarrow> count_loop v' (i + 1) (if b then cnt + 1 else cnt)
         | Throws e v' \<Rightarrow> Throws e v'
         | Undefined \<Rightarrow> Undefined)
      else Returns cnt v)"
  by pat_completeness auto
termination
proof (relation "measure (\<lambda>(v, i, cnt). unat (num_bits v) - unat i)")
  show "wf (measure (\<lambda>(v, i, cnt). unat (num_bits v) - unat i))"
    by simp
next
  fix v :: bit_vector and i cnt :: size_t and b v'
  assume lt: "i < num_bits v" and t: "test v i = Returns b v'"
  have "v' = v" using t by (simp add: test_def Let_def split: if_splits)
  moreover have "unat i < unat (num_bits v)" using lt by (simp add: word_less_nat_alt)
  moreover have "unat (num_bits v) < 2 ^ 64"
    using unsigned_less [of "num_bits v", where ?'a = nat] by simp
  then have "unat (i + 1) = Suc (unat i)"
    using \<open>unat i < unat (num_bits v)\<close> by (simp add: unat_word_ariths)
  ultimately show "((v', i + 1, if b then cnt + 1 else cnt), (v, i, cnt))
      \<in> measure (\<lambda>(v, i, cnt). unat (num_bits v) - unat i)"
    by simp
qed

definition count :: "bit_vector \<Rightarrow> size_t outcome" where
  "count v = count_loop v 0 0"

text \<open>
  \<^verbatim>\<open>std::string::max_size()\<close> belongs to the C++ library, not to the header: it is the
  parameter \<open>max_size\<close> of \<open>to_string\<close> and of everything that calls it.

  \<^verbatim>\<open>for (size_t i = 0; i < num_bits; ++i) { out += test(i) ? '1' : '0'; }\<close>
  Appending a character to a string that has \<^verbatim>\<open>max_size()\<close> characters throws
  \<^verbatim>\<open>std::length_error\<close>.
\<close>

function to_string_loop :: "size_t \<Rightarrow> bit_vector \<Rightarrow> size_t \<Rightarrow> string \<Rightarrow> string outcome" where
  "to_string_loop max_size v i out =
     (if i < num_bits v then
        (case test v i of
           Returns b v' \<Rightarrow>
             if length out < unat max_size
             then to_string_loop max_size v' (i + 1) (out @ [if b then CHR ''1'' else CHR ''0''])
             else Throws length_error v'
         | Throws e v' \<Rightarrow> Throws e v'
         | Undefined \<Rightarrow> Undefined)
      else Returns out v)"
  by pat_completeness auto
termination
proof (relation "measure (\<lambda>(max_size, v, i, out). unat (num_bits v) - unat i)")
  show "wf (measure (\<lambda>(max_size, v, i, out). unat (num_bits v) - unat i))"
    by simp
next
  fix max_size :: size_t and v :: bit_vector and i :: size_t and out :: string and b v'
  assume lt: "i < num_bits v" and t: "test v i = Returns b v'"
  have "v' = v" using t by (simp add: test_def Let_def split: if_splits)
  moreover have "unat i < unat (num_bits v)" using lt by (simp add: word_less_nat_alt)
  moreover have "unat (num_bits v) < 2 ^ 64"
    using unsigned_less [of "num_bits v", where ?'a = nat] by simp
  then have "unat (i + 1) = Suc (unat i)"
    using \<open>unat i < unat (num_bits v)\<close> by (simp add: unat_word_ariths)
  ultimately show "((max_size, v', i + 1, out @ [if b then CHR ''1'' else CHR ''0'']),
      (max_size, v, i, out)) \<in> measure (\<lambda>(max_size, v, i, out). unat (num_bits v) - unat i)"
    by simp
qed

text \<open>
  \<^verbatim>\<open>std::string out; out.reserve(num_bits); for ... ; return out;\<close>
  \<^verbatim>\<open>reserve(n)\<close> throws \<^verbatim>\<open>std::length_error\<close> if \<open>n > max_size()\<close>, before the loop
  is entered; otherwise it only allocates (memory is taken to be unbounded) and leaves
  \<^verbatim>\<open>out\<close> empty.
\<close>

definition to_string :: "size_t \<Rightarrow> bit_vector \<Rightarrow> string outcome" where
  "to_string max_size v =
     (if num_bits v > max_size then Throws length_error v
      else to_string_loop max_size v 0 [])"

subsection \<open>Abstract view of a vector\<close>

text \<open>
  The bit of position \<open>p\<close> lives in byte \<open>p div 8\<close> at offset \<open>p mod 8\<close>, the least
  significant bit being offset 0. \<open>storage_ok\<close> says that the storage has
  \<open>\<lceil>num_bits / 8\<rceil>\<close> bytes, computed without wrap-around, and \<open>padding_zero\<close> that the
  bits of the last byte at positions from \<open>num_bits\<close> on are 0.
\<close>

definition bit_at :: "bit_vector \<Rightarrow> nat \<Rightarrow> bool" where
  "bit_at v p = bit (data v ! (p div 8)) (p mod 8)"

definition storage_ok :: "bit_vector \<Rightarrow> bool" where
  "storage_ok v \<longleftrightarrow> length (data v) = (unat (num_bits v) + 7) div 8"

definition padding_zero :: "bit_vector \<Rightarrow> bool" where
  "padding_zero v \<longleftrightarrow> (\<forall>p \<in> {unat (num_bits v) ..< 8 * length (data v)}. \<not> bit_at v p)"

subsection \<open>Sequences of calls\<close>

text \<open>
  A client calls the public member functions one after the other on the same object. A call
  that returns or throws leaves the object in the state of its outcome, and the next call
  starts there; after undefined behaviour there is no state to go on from.
\<close>

datatype call = Set size_t | Clear size_t | Toggle size_t | Test size_t | Size | Count | ToText

fun after :: "'a outcome \<Rightarrow> bit_vector option" where
  "after (Returns r v) = Some v"
| "after (Throws e v) = Some v"
| "after Undefined = None"

fun invoke :: "size_t \<Rightarrow> bit_vector \<Rightarrow> call \<Rightarrow> bit_vector option" where
  "invoke max_size v (Set pos) = after (set_bv v pos)"
| "invoke max_size v (Clear pos) = after (clear v pos)"
| "invoke max_size v (Toggle pos) = after (toggle v pos)"
| "invoke max_size v (Test pos) = after (test v pos)"
| "invoke max_size v Size = after (size_bv v)"
| "invoke max_size v Count = after (count v)"
| "invoke max_size v ToText = after (to_string max_size v)"

fun run :: "size_t \<Rightarrow> bit_vector \<Rightarrow> call list \<Rightarrow> bit_vector option" where
  "run max_size v [] = Some v"
| "run max_size v (c # cs) =
     (case invoke max_size v c of None \<Rightarrow> None | Some v' \<Rightarrow> run max_size v' cs)"

definition structure_ok :: "bit_vector \<Rightarrow> bool" where
  "structure_ok v \<longleftrightarrow> storage_ok v \<and> padding_zero v"

section \<open>Properties\<close>

text \<open>
  The equations of the two loops are applied where a proof asks for them, one iteration at a
  time.
\<close>

declare count_loop.simps [simp del] to_string_loop.simps [simp del]

subsection \<open>Bytes and positions\<close>

lemma test_Returns_state: "test v pos = Returns b v' \<Longrightarrow> v' = v"
  by (simp add: test_def Let_def split: if_splits)

lemma unat_succ_below: "(i :: size_t) < n \<Longrightarrow> unat (i + 1) = Suc (unat i)"
proof -
  assume "i < n"
  then have "unat i < unat n" by (simp add: word_less_nat_alt)
  moreover have "unat n < 2 ^ 64" using unsigned_less [of n, where ?'a = nat] by simp
  ultimately have "unat i + 1 < 2 ^ 64" by linarith
  then show ?thesis by (simp add: unat_word_ariths)
qed

lemma uchar_bit_less: "bit (d :: uchar) j \<Longrightarrow> j < 8"
  by (drule bit_imp_le_length) simp

lemma byte_or_mask: "k < 8 \<Longrightarrow>
  bit (ucast ((ucast (d :: uchar) :: cint) OR push_bit k 1) :: uchar) j \<longleftrightarrow> bit d j \<or> j = k"
  by (auto simp add: bit_simps dest: uchar_bit_less)

lemma byte_and_not_mask: "k < 8 \<Longrightarrow>
  bit (ucast ((ucast (d :: uchar) :: cint) AND NOT (push_bit k 1)) :: uchar) j \<longleftrightarrow> bit d j \<and> j \<noteq> k"
  by (auto simp add: bit_simps dest: uchar_bit_less)

lemma byte_xor_mask: "k < 8 \<Longrightarrow>
  bit (ucast ((ucast (d :: uchar) :: cint) XOR push_bit k 1) :: uchar) j \<longleftrightarrow> (bit d j \<noteq> (j = k))"
  by (auto simp add: bit_simps dest: uchar_bit_less)

lemma byte_and_mask: "k < 8 \<Longrightarrow>
  ((ucast (d :: uchar) :: cint) AND push_bit k 1) \<noteq> 0 \<longleftrightarrow> bit d k"
proof -
  assume "k < 8"
  then have "bit (ucast d :: cint) k \<longleftrightarrow> bit d k"
    by (simp add: bit_simps)
  then show ?thesis
    using bit_iff_and_push_bit_not_eq_0 [of "ucast d :: cint" k] by simp
qed

lemma pos_split: "unat ((pos :: size_t) div BITS_PER_BYTE) = unat pos div 8" "unat (pos mod BITS_PER_BYTE) = unat pos mod 8"
  by (simp_all add: BITS_PER_BYTE_def unat_div unat_mod)

subsection \<open>The operations on a vector with matching storage\<close>

lemma byte_in_range:
  assumes "storage_ok v" and "pos < num_bits v"
  shows "unat pos div 8 < length (data v)"
proof -
  have "unat pos < unat (num_bits v)" using assms(2) by (simp add: word_less_nat_alt)
  then have "unat pos div 8 < (unat (num_bits v) + 7) div 8" by arith
  then show ?thesis using assms(1) by (simp add: storage_ok_def)
qed

lemma same_position: "(q :: nat) div 8 = p div 8 \<and> q mod 8 = p mod 8 \<longleftrightarrow> q = p"
  by (metis div_mult_mod_eq)

lemma bit_at_update:
  "i < length (data v) \<Longrightarrow>
   bit_at (v\<lparr>data := (data v)[i := d]\<rparr>) q = (if q div 8 = i then bit d (q mod 8) else bit_at v q)"
  by (simp add: bit_at_def)

lemma test_eval:
  "storage_ok v \<Longrightarrow> pos < num_bits v \<Longrightarrow> test v pos = Returns (bit_at v (unat pos)) v"
  by (simp add: test_def Let_def pos_split byte_in_range byte_and_mask bit_at_def del: push_bit_of_1)

lemma set_eval:
  assumes "storage_ok v" and "pos < num_bits v"
  shows "\<exists>v'. set_bv v pos = Returns () v' \<and> num_bits v' = num_bits v \<and>
           length (data v') = length (data v) \<and>
           (\<forall>q. bit_at v' q \<longleftrightarrow> bit_at v q \<or> q = unat pos)"
proof -
  let ?i = "unat pos div 8" and ?k = "unat pos mod 8"
  let ?d = "ucast ((ucast (data v ! ?i) :: cint) OR push_bit ?k 1) :: uchar"
  let ?v' = "v\<lparr>data := (data v)[?i := ?d]\<rparr>"
  have i: "?i < length (data v)" using assms by (rule byte_in_range)
  have "set_bv v pos = Returns () ?v'"
    using assms(2) i by (simp add: set_bv_def Let_def pos_split del: push_bit_of_1)
  moreover have "bit_at ?v' q \<longleftrightarrow> bit_at v q \<or> q = unat pos" for q
  proof (cases "q div 8 = ?i")
    case True
    have "bit_at ?v' q = bit ?d (q mod 8)"
      using i True by (simp add: bit_at_update)
    moreover have "bit_at v q = bit (data v ! ?i) (q mod 8)"
      using True by (simp add: bit_at_def)
    moreover have "q mod 8 = ?k \<longleftrightarrow> q = unat pos"
      using True same_position [of q "unat pos"] by simp
    ultimately show ?thesis
      by (simp add: byte_or_mask del: push_bit_of_1)
  next
    case False
    then have "q \<noteq> unat pos" by auto
    then show ?thesis using i False by (simp add: bit_at_update)
  qed
  ultimately show ?thesis by simp
qed

lemma clear_eval:
  assumes "storage_ok v" and "pos < num_bits v"
  shows "\<exists>v'. clear v pos = Returns () v' \<and> num_bits v' = num_bits v \<and>
           length (data v') = length (data v) \<and>
           (\<forall>q. bit_at v' q \<longleftrightarrow> bit_at v q \<and> q \<noteq> unat pos)"
proof -
  let ?i = "unat pos div 8" and ?k = "unat pos mod 8"
  let ?d = "ucast ((ucast (data v ! ?i) :: cint) AND NOT (push_bit ?k 1)) :: uchar"
  let ?v' = "v\<lparr>data := (data v)[?i := ?d]\<rparr>"
  have i: "?i < length (data v)" using assms by (rule byte_in_range)
  have "clear v pos = Returns () ?v'"
    using assms(2) i by (simp add: clear_def Let_def pos_split del: push_bit_of_1)
  moreover have "bit_at ?v' q \<longleftrightarrow> bit_at v q \<and> q \<noteq> unat pos" for q
  proof (cases "q div 8 = ?i")
    case True
    have "bit_at ?v' q = bit ?d (q mod 8)"
      using i True by (simp add: bit_at_update)
    moreover have "bit_at v q = bit (data v ! ?i) (q mod 8)"
      using True by (simp add: bit_at_def)
    moreover have "q mod 8 = ?k \<longleftrightarrow> q = unat pos"
      using True same_position [of q "unat pos"] by simp
    ultimately show ?thesis
      by (simp add: byte_and_not_mask del: push_bit_of_1)
  next
    case False
    then have "q \<noteq> unat pos" by auto
    then show ?thesis using i False by (simp add: bit_at_update)
  qed
  ultimately show ?thesis by simp
qed

lemma toggle_eval:
  assumes "storage_ok v" and "pos < num_bits v"
  shows "\<exists>v'. toggle v pos = Returns () v' \<and> num_bits v' = num_bits v \<and>
           length (data v') = length (data v) \<and>
           (\<forall>q. bit_at v' q \<longleftrightarrow> (bit_at v q \<noteq> (q = unat pos)))"
proof -
  let ?i = "unat pos div 8" and ?k = "unat pos mod 8"
  let ?d = "ucast ((ucast (data v ! ?i) :: cint) XOR push_bit ?k 1) :: uchar"
  let ?v' = "v\<lparr>data := (data v)[?i := ?d]\<rparr>"
  have i: "?i < length (data v)" using assms by (rule byte_in_range)
  have "toggle v pos = Returns () ?v'"
    using assms(2) i by (simp add: toggle_def Let_def pos_split del: push_bit_of_1)
  moreover have "bit_at ?v' q \<longleftrightarrow> (bit_at v q \<noteq> (q = unat pos))" for q
  proof (cases "q div 8 = ?i")
    case True
    have "bit_at ?v' q = bit ?d (q mod 8)"
      using i True by (simp add: bit_at_update)
    moreover have "bit_at v q = bit (data v ! ?i) (q mod 8)"
      using True by (simp add: bit_at_def)
    moreover have "q mod 8 = ?k \<longleftrightarrow> q = unat pos"
      using True same_position [of q "unat pos"] by simp
    ultimately show ?thesis
      by (simp add: byte_xor_mask del: push_bit_of_1)
  next
    case False
    then have "q \<noteq> unat pos" by auto
    then show ?thesis using i False by (simp add: bit_at_update)
  qed
  ultimately show ?thesis by simp
qed


subsection \<open>Equality of vectors\<close>

lemma uchar_eqI: "(\<And>j. j < 8 \<Longrightarrow> bit (a :: uchar) j = bit b j) \<Longrightarrow> a = b"
  by (rule bit_word_eqI) simp

lemma bit_vector_eqI:
  assumes n: "num_bits v' = num_bits v"
    and l: "length (data v') = length (data v)"
    and b: "\<And>q. q < 8 * length (data v) \<Longrightarrow> bit_at v' q = bit_at v q"
  shows "v' = (v :: bit_vector)"
proof -
  have "data v' ! i = data v ! i" if "i < length (data v)" for i
  proof (rule uchar_eqI)
    fix j :: nat
    assume "j < 8"
    then have "(8 * i + j) div 8 = i" and "(8 * i + j) mod 8 = j" and "8 * i + j < 8 * length (data v)"
      using that by simp_all
    then show "bit (data v' ! i) j = bit (data v ! i) j"
      using b [of "8 * i + j"] by (simp add: bit_at_def)
  qed
  then have "data v' = data v"
    using l by (simp add: nth_equalityI)
  then show ?thesis using n by simp
qed

subsection \<open>The loops\<close>

lemma unat_num_bits_bound: "unat (n :: size_t) < 2 ^ 64"
  using unsigned_less [of n, where ?'a = nat] by simp

lemma count_loop_eval:
  "storage_ok v \<Longrightarrow> i \<le> num_bits v \<Longrightarrow>
   count_loop v i cnt =
     Returns (cnt + of_nat (card {p. unat i \<le> p \<and> p < unat (num_bits v) \<and> bit_at v p})) v"
proof (induction v i cnt rule: count_loop.induct)
  case (1 v i cnt)
  let ?n = "unat (num_bits v)"
  let ?S = "\<lambda>k. {p. k \<le> p \<and> p < ?n \<and> bit_at v p}"
  show ?case
  proof (cases "i < num_bits v")
    case True
    let ?b = "bit_at v (unat i)"
    have t: "test v i = Returns ?b v"
      using "1.prems"(1) True by (rule test_eval)
    have s: "unat (i + 1) = Suc (unat i)" using True by (rule unat_succ_below)
    have lt: "unat i < ?n" using True by (simp add: word_less_nat_alt)
    have "i + 1 \<le> num_bits v" using True by (rule inc_le)
    with "1.IH" [OF True t "1.prems"(1)]
    have ih: "count_loop v (i + 1) (if ?b then cnt + 1 else cnt) =
        Returns ((if ?b then cnt + 1 else cnt) + of_nat (card (?S (Suc (unat i))))) v"
      by (simp add: s)
    have fin: "finite (?S (Suc (unat i)))" by simp
    have split: "?S (unat i) = (if ?b then insert (unat i) (?S (Suc (unat i))) else ?S (Suc (unat i)))"
      using lt by (auto simp add: Suc_le_eq le_less)
    have "card (?S (unat i)) = (if ?b then Suc (card (?S (Suc (unat i)))) else card (?S (Suc (unat i))))"
      unfolding split using fin by simp
    then have "(if ?b then cnt + 1 else cnt) + of_nat (card (?S (Suc (unat i)))) =
        cnt + (of_nat (card (?S (unat i))) :: size_t)"
      by simp
    with ih t True show ?thesis
      by (subst count_loop.simps) simp
  next
    case False
    then have "num_bits v \<le> i" by simp
    then have "?n \<le> unat i" by (simp add: word_le_nat_alt)
    then have e: "?S (unat i) = {}" by auto
    have "cnt + of_nat (card (?S (unat i))) = cnt"
      unfolding e by simp
    with False show ?thesis
      by (subst count_loop.simps) (simp only: if_False)
  qed
qed

lemma to_string_loop_eval:
  "storage_ok v \<Longrightarrow> i \<le> num_bits v \<Longrightarrow> num_bits v \<le> max_size \<Longrightarrow> length out = unat i \<Longrightarrow>
   to_string_loop max_size v i out =
     Returns (out @ map (\<lambda>p. if bit_at v p then CHR ''1'' else CHR ''0'') [unat i ..< unat (num_bits v)]) v"
proof (induction max_size v i out rule: to_string_loop.induct)
  case (1 max_size v i out)
  let ?n = "unat (num_bits v)"
  let ?c = "\<lambda>p. if bit_at v p then CHR ''1'' else CHR ''0''"
  show ?case
  proof (cases "i < num_bits v")
    case True
    let ?b = "bit_at v (unat i)"
    have t: "test v i = Returns ?b v"
      using "1.prems"(1) True by (rule test_eval)
    have s: "unat (i + 1) = Suc (unat i)" using True by (rule unat_succ_below)
    have lt: "unat i < ?n" using True by (simp add: word_less_nat_alt)
    have "?n \<le> unat max_size" using "1.prems"(3) by (simp add: word_le_nat_alt)
    then have room: "length out < unat max_size" using lt "1.prems"(4) by simp
    have le: "i + 1 \<le> num_bits v" using True by (rule inc_le)
    have len: "length (out @ [?c (unat i)]) = unat (i + 1)"
      using "1.prems"(4) s by simp
    have ih: "to_string_loop max_size v (i + 1) (out @ [?c (unat i)]) =
        Returns ((out @ [?c (unat i)]) @ map ?c [Suc (unat i) ..< ?n]) v"
      using "1.IH" [OF True t room "1.prems"(1) le "1.prems"(3)] len by (simp add: s)
    have "[unat i ..< ?n] = unat i # [Suc (unat i) ..< ?n]"
      using lt by (rule upt_conv_Cons)
    with ih t True room show ?thesis
      by (subst to_string_loop.simps) simp
  next
    case False
    then have "num_bits v \<le> i" by simp
    then have "?n \<le> unat i" by (simp add: word_le_nat_alt)
    with False show ?thesis
      by (subst to_string_loop.simps) simp
  qed
qed

lemma to_string_eval:
  assumes "storage_ok v" and "num_bits v \<le> max_size"
  shows "to_string max_size v =
     Returns (map (\<lambda>p. if bit_at v p then CHR ''1'' else CHR ''0'') [0 ..< unat (num_bits v)]) v"
proof -
  have "\<not> max_size < num_bits v" using assms(2) by simp
  then show ?thesis
    using to_string_loop_eval [OF assms(1) _ assms(2), of 0 "[]"] by (simp add: to_string_def)
qed

lemma to_string_beyond_max_size:
  "max_size < num_bits v \<Longrightarrow> to_string max_size v = Throws length_error v"
  by (simp add: to_string_def)

lemma test_True_iff:
  "storage_ok v \<Longrightarrow> pos < num_bits v \<Longrightarrow> test v pos = Returns True v \<longleftrightarrow> bit_at v (unat pos)"
  by (simp add: test_eval)

lemma count_eval:
  assumes "storage_ok v"
  shows "count v = Returns (of_nat (card {p. p < unat (num_bits v) \<and> bit_at v p})) v"
  using count_loop_eval [OF assms, of 0 0] by (simp add: count_def)

lemma set_positions_card:
  assumes "storage_ok v"
  shows "card {pos. pos < num_bits v \<and> test v pos = Returns True v} =
         card {p. p < unat (num_bits v) \<and> bit_at v p}"
proof -
  let ?A = "{pos. pos < num_bits v \<and> test v pos = Returns True v}"
  let ?B = "{p. p < unat (num_bits v) \<and> bit_at v p}"
  have img: "unat ` ?A = ?B"
  proof (rule set_eqI)
    fix p :: nat
    show "p \<in> unat ` ?A \<longleftrightarrow> p \<in> ?B"
    proof
      assume "p \<in> unat ` ?A"
      then obtain pos where "p = unat pos" "pos < num_bits v" "test v pos = Returns True v"
        by auto
      then show "p \<in> ?B"
        using assms by (simp add: test_True_iff word_less_nat_alt)
    next
      assume "p \<in> ?B"
      then have lt: "p < unat (num_bits v)" and b: "bit_at v p" by simp_all
      have "p < 2 ^ 64" using lt unat_num_bits_bound [of "num_bits v"] by linarith
      then have u: "unat (of_nat p :: size_t) = p" by (simp add: unat_of_nat)
      then have "(of_nat p :: size_t) < num_bits v" using lt by (simp add: word_less_nat_alt)
      then have "(of_nat p :: size_t) \<in> ?A"
        using assms b u by (simp add: test_True_iff)
      then have "unat (of_nat p :: size_t) \<in> unat ` ?A" by (rule imageI)
      then show "p \<in> unat ` ?A" by (simp only: u)
    qed
  qed
  have "inj_on unat ?A" by (rule inj_onI) (simp only: word_unat_eq_iff)
  then have "card (unat ` ?A) = card ?A" by (rule card_image)
  then show ?thesis by (simp only: img)
qed

lemma count_matches_test:
  assumes "storage_ok v"
  shows "\<exists>n. count v = Returns n v \<and>
           unat n = card {pos. pos < num_bits v \<and> test v pos = Returns True v}"
proof -
  let ?B = "{p. p < unat (num_bits v) \<and> bit_at v p}"
  have "?B \<subseteq> {..< unat (num_bits v)}" by auto
  then have "card ?B \<le> card {..< unat (num_bits v)}" by (intro card_mono) simp_all
  then have "card ?B < 2 ^ 64" using unat_num_bits_bound [of "num_bits v"] by simp
  then have "unat (of_nat (card ?B) :: size_t) = card ?B" by (simp add: unat_of_nat)
  then have "unat (of_nat (card ?B) :: size_t) =
      card {pos. pos < num_bits v \<and> test v pos = Returns True v}"
    by (simp only: set_positions_card [OF assms])
  with count_eval [OF assms] show ?thesis by blast
qed

lemma to_string_matches_test:
  assumes "storage_ok v" and "num_bits v \<le> max_size"
  shows "\<exists>s. to_string max_size v = Returns s v \<and> length s = unat (num_bits v) \<and>
           (\<forall>pos. pos < num_bits v \<longrightarrow>
              s ! unat pos = (if test v pos = Returns True v then CHR ''1'' else CHR ''0''))"
proof -
  let ?c = "\<lambda>p. if bit_at v p then CHR ''1'' else CHR ''0''"
  let ?s = "map ?c [0 ..< unat (num_bits v)]"
  have "to_string max_size v = Returns ?s v"
    using assms by (rule to_string_eval)
  moreover have "length ?s = unat (num_bits v)" by simp
  moreover have "?s ! unat pos = (if test v pos = Returns True v then CHR ''1'' else CHR ''0'')"
    if "pos < num_bits v" for pos
  proof -
    have "unat pos < unat (num_bits v)" using that by (simp add: word_less_nat_alt)
    then have "?s ! unat pos = ?c (unat pos)" by simp
    then show ?thesis using assms(1) that by (simp add: test_True_iff)
  qed
  ultimately show ?thesis by blast
qed

subsection \<open>Construction without wrap-around\<close>

lemma ctor_storage:
  assumes "unat sz + 7 < 2 ^ 64"
  shows "length (data (bit_vector_ctor sz)) = (unat sz + 7) div 8"
proof -
  have "unat (sz + BITS_PER_BYTE - 1) = unat sz + 7"
    unfolding BITS_PER_BYTE_def using assms by (simp add: unat_word_ariths)
  then show ?thesis
    by (simp add: bit_vector_ctor_def unat_div) (simp add: BITS_PER_BYTE_def)
qed

lemma ctor_storage_ok: "unat sz + 7 < 2 ^ 64 \<Longrightarrow> storage_ok (bit_vector_ctor sz)"
  using ctor_storage [of sz] by (simp add: storage_ok_def) (simp add: bit_vector_ctor_def)

lemma ctor_bit_at:
  "p < 8 * length (data (bit_vector_ctor sz)) \<Longrightarrow> \<not> bit_at (bit_vector_ctor sz) p"
  by (simp add: bit_at_def bit_vector_ctor_def)

lemma ctor_zero:
  assumes "unat sz + 7 < 2 ^ 64"
  shows "size_bv (bit_vector_ctor sz) = Returns sz (bit_vector_ctor sz) \<and>
         length (data (bit_vector_ctor sz)) = (unat sz + 7) div 8 \<and>
         (\<forall>d \<in> set (data (bit_vector_ctor sz)). d = 0) \<and>
         (\<forall>pos. pos < sz \<longrightarrow> test (bit_vector_ctor sz) pos = Returns False (bit_vector_ctor sz))"
proof -
  let ?v = "bit_vector_ctor sz"
  have ok: "storage_ok ?v" using assms by (rule ctor_storage_ok)
  have n: "num_bits ?v = sz" by (simp add: bit_vector_ctor_def)
  have "test ?v pos = Returns False ?v" if "pos < sz" for pos
  proof -
    have lt: "pos < num_bits ?v" using that n by simp
    then have "unat pos div 8 < length (data ?v)" using ok by (intro byte_in_range)
    then have "unat pos < 8 * length (data ?v)" by arith
    then have "\<not> bit_at ?v (unat pos)" by (rule ctor_bit_at)
    then show ?thesis using test_eval [OF ok lt] by simp
  qed
  moreover have "\<forall>d \<in> set (data ?v). d = 0" by (simp add: bit_vector_ctor_def)
  moreover have "size_bv ?v = Returns sz ?v" by (simp add: size_bv_def n)
  ultimately show ?thesis using ctor_storage [OF assms] by blast
qed

text \<open>The largest size: the sum wraps around to 6, and 6 / 8 bytes are none.\<close>

lemma ctor_wraps_numeral: "bit_vector_ctor 18446744073709551615 = \<lparr>data = [], num_bits = 18446744073709551615\<rparr>"
  by (simp add: bit_vector_ctor_def BITS_PER_BYTE_def)

subsection \<open>Set, clear and toggle\<close>

lemma storage_ok_cong:
  "num_bits v' = num_bits v \<Longrightarrow> length (data v') = length (data v) \<Longrightarrow> storage_ok v \<Longrightarrow> storage_ok v'"
  by (simp add: storage_ok_def)

lemma set_then_clear:
  assumes ok: "storage_ok v" and lt: "pos < num_bits v"
  shows "\<exists>v' v''. set_bv v pos = Returns () v' \<and> test v' pos = Returns True v' \<and>
           clear v' pos = Returns () v'' \<and> test v'' pos = Returns False v'' \<and>
           (test v pos = Returns True v \<longrightarrow> v' = v) \<and>
           (test v pos = Returns False v \<longrightarrow> clear v pos = Returns () v)"
proof -
  obtain v' where s: "set_bv v pos = Returns () v'" and n': "num_bits v' = num_bits v"
    and l': "length (data v') = length (data v)"
    and b': "\<And>q. bit_at v' q \<longleftrightarrow> bit_at v q \<or> q = unat pos"
    using set_eval [OF ok lt] by blast
  have ok': "storage_ok v'" using n' l' ok by (rule storage_ok_cong)
  have lt': "pos < num_bits v'" using lt n' by simp
  have t': "test v' pos = Returns True v'"
    using test_eval [OF ok' lt'] b' by simp
  obtain v'' where c: "clear v' pos = Returns () v''" and n'': "num_bits v'' = num_bits v'"
    and l'': "length (data v'') = length (data v')"
    and b'': "\<And>q. bit_at v'' q \<longleftrightarrow> bit_at v' q \<and> q \<noteq> unat pos"
    using clear_eval [OF ok' lt'] by blast
  have ok'': "storage_ok v''" using n'' l'' ok' by (rule storage_ok_cong)
  have lt'': "pos < num_bits v''" using lt' n'' by simp
  have t'': "test v'' pos = Returns False v''"
    using test_eval [OF ok'' lt''] b'' by simp
  have idem_set: "v' = v" if "test v pos = Returns True v"
  proof (rule bit_vector_eqI [OF n' l'])
    fix q
    have "bit_at v (unat pos)" using that test_eval [OF ok lt] by simp
    then show "bit_at v' q = bit_at v q" using b' [of q] by auto
  qed
  have idem_clear: "clear v pos = Returns () v" if "test v pos = Returns False v"
  proof -
    obtain w where cw: "clear v pos = Returns () w" and nw: "num_bits w = num_bits v"
      and lw: "length (data w) = length (data v)"
      and bw: "\<And>q. bit_at w q \<longleftrightarrow> bit_at v q \<and> q \<noteq> unat pos"
      using clear_eval [OF ok lt] by blast
    have nb: "\<not> bit_at v (unat pos)" using that test_eval [OF ok lt] by simp
    have "w = v"
    proof (rule bit_vector_eqI [OF nw lw])
      fix q
      show "bit_at w q = bit_at v q" using bw [of q] nb by auto
    qed
    then show ?thesis using cw by simp
  qed
  show ?thesis
    using s t' c t'' idem_set idem_clear by blast
qed

lemma toggle_twice:
  assumes ok: "storage_ok v" and lt: "pos < num_bits v"
  shows "\<exists>v' b. test v pos = Returns b v \<and> toggle v pos = Returns () v' \<and>
           test v' pos = Returns (\<not> b) v' \<and> toggle v' pos = Returns () v"
proof -
  obtain v' where s: "toggle v pos = Returns () v'" and n': "num_bits v' = num_bits v"
    and l': "length (data v') = length (data v)"
    and b': "\<And>q. bit_at v' q \<longleftrightarrow> (bit_at v q \<noteq> (q = unat pos))"
    using toggle_eval [OF ok lt] by blast
  have ok': "storage_ok v'" using n' l' ok by (rule storage_ok_cong)
  have lt': "pos < num_bits v'" using lt n' by simp
  have t': "test v' pos = Returns (\<not> bit_at v (unat pos)) v'"
    using test_eval [OF ok' lt'] b' by simp
  obtain w where sw: "toggle v' pos = Returns () w" and nw: "num_bits w = num_bits v'"
    and lw: "length (data w) = length (data v')"
    and bw: "\<And>q. bit_at w q \<longleftrightarrow> (bit_at v' q \<noteq> (q = unat pos))"
    using toggle_eval [OF ok' lt'] by blast
  have "w = v"
  proof (rule bit_vector_eqI)
    show "num_bits w = num_bits v" using nw n' by simp
    show "length (data w) = length (data v)" using lw l' by simp
    fix q
    show "bit_at w q = bit_at v q" using bw [of q] b' [of q] by auto
  qed
  then have "toggle v' pos = Returns () v" using sw by simp
  then show ?thesis
    using test_eval [OF ok lt] s t' by blast
qed

lemma distinct_positions:
  assumes "(q :: size_t) \<noteq> pos"
  shows "(q div BITS_PER_BYTE, q mod BITS_PER_BYTE) \<noteq> (pos div BITS_PER_BYTE, pos mod BITS_PER_BYTE)"
proof
  assume "(q div BITS_PER_BYTE, q mod BITS_PER_BYTE) = (pos div BITS_PER_BYTE, pos mod BITS_PER_BYTE)"
  then have "q div BITS_PER_BYTE = pos div BITS_PER_BYTE" and "q mod BITS_PER_BYTE = pos mod BITS_PER_BYTE"
    by simp_all
  then have "q div BITS_PER_BYTE * BITS_PER_BYTE + q mod BITS_PER_BYTE =
      pos div BITS_PER_BYTE * BITS_PER_BYTE + pos mod BITS_PER_BYTE"
    by simp
  then have "q = pos" by (simp only: div_mult_mod_eq)
  with assms show False by simp
qed

lemma other_positions_kept:
  assumes ok: "storage_ok v" and lt: "pos < num_bits v" and ltq: "q < num_bits v" and ne: "q \<noteq> pos"
  shows "\<exists>v1 v2 v3 b. test v q = Returns b v \<and>
           set_bv v pos = Returns () v1 \<and> test v1 q = Returns b v1 \<and>
           clear v pos = Returns () v2 \<and> test v2 q = Returns b v2 \<and>
           toggle v pos = Returns () v3 \<and> test v3 q = Returns b v3"
proof -
  have neq: "unat q \<noteq> unat pos" using ne by (simp add: word_unat_eq_iff)
  obtain v1 where s1: "set_bv v pos = Returns () v1" and n1: "num_bits v1 = num_bits v"
    and l1: "length (data v1) = length (data v)"
    and b1: "\<And>q. bit_at v1 q \<longleftrightarrow> bit_at v q \<or> q = unat pos"
    using set_eval [OF ok lt] by blast
  obtain v2 where s2: "clear v pos = Returns () v2" and n2: "num_bits v2 = num_bits v"
    and l2: "length (data v2) = length (data v)"
    and b2: "\<And>q. bit_at v2 q \<longleftrightarrow> bit_at v q \<and> q \<noteq> unat pos"
    using clear_eval [OF ok lt] by blast
  obtain v3 where s3: "toggle v pos = Returns () v3" and n3: "num_bits v3 = num_bits v"
    and l3: "length (data v3) = length (data v)"
    and b3: "\<And>q. bit_at v3 q \<longleftrightarrow> (bit_at v q \<noteq> (q = unat pos))"
    using toggle_eval [OF ok lt] by blast
  have t1: "test v1 q = Returns (bit_at v (unat q)) v1"
    using test_eval [of v1 q] storage_ok_cong [OF n1 l1 ok] ltq n1 b1 [of "unat q"] neq by simp
  have t2: "test v2 q = Returns (bit_at v (unat q)) v2"
    using test_eval [of v2 q] storage_ok_cong [OF n2 l2 ok] ltq n2 b2 [of "unat q"] neq by simp
  have t3: "test v3 q = Returns (bit_at v (unat q)) v3"
    using test_eval [of v3 q] storage_ok_cong [OF n3 l3 ok] ltq n3 b3 [of "unat q"] neq by simp
  show ?thesis
    using test_eval [OF ok ltq] s1 t1 s2 t2 s3 t3 by blast
qed

subsection \<open>The structure is kept by every call\<close>

lemma padding_kept:
  assumes n: "num_bits v' = num_bits v" and l: "length (data v') = length (data v)"
    and b: "\<And>q. unat (num_bits v) \<le> q \<Longrightarrow> bit_at v' q = bit_at v q"
    and p: "padding_zero v"
  shows "padding_zero v'"
  using p by (simp add: padding_zero_def n l b)

lemma invoke_keeps_structure:
  assumes inv: "structure_ok v"
  shows "\<exists>v'. invoke max_size v c = Some v' \<and> num_bits v' = num_bits v \<and> structure_ok v'"
proof -
  have ok: "storage_ok v" and pz: "padding_zero v" using inv by (simp_all add: structure_ok_def)
  have same: "\<exists>v'. Some v = Some v' \<and> num_bits v' = num_bits v \<and> structure_ok v'"
    using inv by simp
  show ?thesis
  proof (cases c)
    case (Set pos)
    show ?thesis
    proof (cases "pos < num_bits v")
      case True
      then have u: "unat pos < unat (num_bits v)" by (simp add: word_less_nat_alt)
      obtain v' where s: "set_bv v pos = Returns () v'" and n': "num_bits v' = num_bits v"
        and l': "length (data v') = length (data v)"
        and b': "\<And>q. bit_at v' q \<longleftrightarrow> bit_at v q \<or> q = unat pos"
        using set_eval [OF ok True] by blast
      have "padding_zero v'" using n' l' _ pz
      proof (rule padding_kept)
        fix q assume "unat (num_bits v) \<le> q"
        then show "bit_at v' q = bit_at v q" using u b' [of q] by auto
      qed
      then have "structure_ok v'"
        using storage_ok_cong [OF n' l' ok] by (simp add: structure_ok_def)
      then show ?thesis using Set s n' by simp
    next
      case False
      then have "set_bv v pos = Throws out_of_range v" by (simp add: set_bv_def not_less)
      then show ?thesis using Set same by simp
    qed
  next
    case (Clear pos)
    show ?thesis
    proof (cases "pos < num_bits v")
      case True
      then have u: "unat pos < unat (num_bits v)" by (simp add: word_less_nat_alt)
      obtain v' where s: "clear v pos = Returns () v'" and n': "num_bits v' = num_bits v"
        and l': "length (data v') = length (data v)"
        and b': "\<And>q. bit_at v' q \<longleftrightarrow> bit_at v q \<and> q \<noteq> unat pos"
        using clear_eval [OF ok True] by blast
      have "padding_zero v'" using n' l' _ pz
      proof (rule padding_kept)
        fix q assume "unat (num_bits v) \<le> q"
        then show "bit_at v' q = bit_at v q" using u b' [of q] by auto
      qed
      then have "structure_ok v'"
        using storage_ok_cong [OF n' l' ok] by (simp add: structure_ok_def)
      then show ?thesis using Clear s n' by simp
    next
      case False
      then have "clear v pos = Throws out_of_range v" by (simp add: clear_def not_less)
      then show ?thesis using Clear same by simp
    qed
  next
    case (Toggle pos)
    show ?thesis
    proof (cases "pos < num_bits v")
      case True
      then have u: "unat pos < unat (num_bits v)" by (simp add: word_less_nat_alt)
      obtain v' where s: "toggle v pos = Returns () v'" and n': "num_bits v' = num_bits v"
        and l': "length (data v') = length (data v)"
        and b': "\<And>q. bit_at v' q \<longleftrightarrow> (bit_at v q \<noteq> (q = unat pos))"
        using toggle_eval [OF ok True] by blast
      have "padding_zero v'" using n' l' _ pz
      proof (rule padding_kept)
        fix q assume "unat (num_bits v) \<le> q"
        then show "bit_at v' q = bit_at v q" using u b' [of q] by auto
      qed
      then have "structure_ok v'"
        using storage_ok_cong [OF n' l' ok] by (simp add: structure_ok_def)
      then show ?thesis using Toggle s n' by simp
    next
      case False
      then have "toggle v pos = Throws out_of_range v" by (simp add: toggle_def not_less)
      then show ?thesis using Toggle same by simp
    qed
  next
    case (Test pos)
    show ?thesis
    proof (cases "pos < num_bits v")
      case True
      then show ?thesis using Test same test_eval [OF ok True] by simp
    next
      case False
      then have "test v pos = Throws out_of_range v" by (simp add: test_def not_less)
      then show ?thesis using Test same by simp
    qed
  next
    case Size
    then show ?thesis using same by (simp add: size_bv_def)
  next
    case Count
    then show ?thesis using same count_eval [OF ok] by simp
  next
    case ToText
    show ?thesis
    proof (cases "num_bits v \<le> max_size")
      case True
      then show ?thesis using ToText same to_string_eval [OF ok True] by simp
    next
      case False
      then have "max_size < num_bits v" by simp
      then show ?thesis using ToText same by (simp add: to_string_beyond_max_size)
    qed
  qed
qed

lemma run_keeps_structure:
  "structure_ok v \<Longrightarrow>
     \<exists>v'. run max_size v cs = Some v' \<and> num_bits v' = num_bits v \<and> structure_ok v'"
proof (induction cs arbitrary: v)
  case Nil
  then show ?case by simp
next
  case (Cons c cs)
  obtain v1 where i: "invoke max_size v c = Some v1" and n1: "num_bits v1 = num_bits v" and s1: "structure_ok v1"
    using invoke_keeps_structure [OF Cons.prems] by blast
  obtain v' where "run max_size v1 cs = Some v'" "num_bits v' = num_bits v1" "structure_ok v'"
    using Cons.IH [OF s1] by blast
  then show ?case using i n1 by simp
qed

lemma ctor_structure_ok: "unat sz + 7 < 2 ^ 64 \<Longrightarrow> structure_ok (bit_vector_ctor sz)"
  by (simp add: structure_ok_def ctor_storage_ok padding_zero_def ctor_bit_at)


lemma run_from_ctor:
  assumes "unat sz + 7 < 2 ^ 64"
  shows "\<exists>v'. run max_size (bit_vector_ctor sz) cs = Some v' \<and> num_bits v' = sz \<and> structure_ok v'"
proof -
  have "num_bits (bit_vector_ctor sz) = sz" by (simp add: bit_vector_ctor_def)
  then show ?thesis
    using run_keeps_structure [OF ctor_structure_ok [OF assms], of max_size cs] by simp
qed

section \<open>The claims\<close>

text \<open>
  The lemmas above establish the behaviour of every operation on a vector whose storage
  has \<open>\<lceil>num_bits / 8\<rceil>\<close> bytes (\<open>storage_ok\<close>): \<open>count_matches_test\<close>,
  \<open>to_string_matches_test\<close> (for a capacity within \<^verbatim>\<open>max_size()\<close> of a string),
  \<open>set_then_clear\<close>, \<open>toggle_twice\<close>,
  \<open>other_positions_kept\<close> and \<open>run_keeps_structure\<close>. By \<open>ctor_zero\<close> and
  \<open>run_from_ctor\<close> that covers every vector constructed with a size of at most
  \<open>2^64 - 8\<close> and everything reached from it. For the seven sizes above, the sum
  \<^verbatim>\<open>size + BITS_PER_BYTE - 1\<close> of the constructor wraps around, the constructed vector
  has \<open>num_bits > 0\<close> and no storage at all (\<open>ctor_wraps_numeral\<close>), and every access
  to a position below \<open>num_bits\<close> indexes the empty \<^verbatim>\<open>data\<close>. The theorems below that
  evaluate the code at the size \<open>2^64 - 1 = 18446744073709551615\<close> record this. Where a
  concrete \<^verbatim>\<open>std::string::max_size()\<close> is needed it is \<open>2^63 - 1 = 9223372036854775807\<close>.
\<close>

text \<open>
  Claim C1 (count returns the number of positions whose test is true, for every reachable
  vector). At the vector constructed with size \<open>2^64 - 1\<close> the loop of \<^verbatim>\<open>count\<close>
  calls \<^verbatim>\<open>test(0)\<close>, which indexes the empty storage: \<^verbatim>\<open>count\<close> returns no number.
\<close>

theorem count_at_wrapped_size: "count (bit_vector_ctor 18446744073709551615) = Undefined"
  by code_simp

text \<open>
  Claim C2 (for every reachable vector \<^verbatim>\<open>to_string\<close> returns a string of length capacity
  whose character \<open>i\<close> is \<open>1\<close> where test at \<open>i\<close> is true and \<open>0\<close> otherwise). Not so
  where the capacity exceeds \<^verbatim>\<open>std::string::max_size()\<close>: at the vector constructed with
  size \<open>2^64 - 1\<close>, \<^verbatim>\<open>out.reserve(num_bits)\<close> throws \<^verbatim>\<open>std::length_error\<close> before the
  loop is entered; no string is returned and the vector is left as it was.
  \<open>to_string_beyond_max_size\<close> says the same of every vector and every \<^verbatim>\<open>max_size()\<close>
  below its capacity.
\<close>

theorem to_string_at_wrapped_size:
  "to_string 9223372036854775807 (bit_vector_ctor 18446744073709551615) =
     Throws length_error (bit_vector_ctor 18446744073709551615)"
  by (simp add: to_string_def bit_vector_ctor_def)

text \<open>
  Claim C2 as amended: for every vector \<open>v\<close> reached by any sequence of calls from a
  construction with a size of at most \<^verbatim>\<open>std::string::max_size()\<close>, \<^verbatim>\<open>to_string\<close> returns
  a string of length capacity whose character at index \<open>i\<close> is \<open>1\<close> if test at \<open>i\<close> is
  true and \<open>0\<close> otherwise, position 0 first, and leaves \<open>v\<close> as it was. The first
  hypothesis is a fact of the C++ library: its \<^verbatim>\<open>max_size()\<close> is at most \<open>2^64 - 8\<close>,
  so a size within it is one at which the constructor's sum does not wrap around.
\<close>

theorem to_string_within_max_size:
  assumes m: "unat max_size + 7 < 2 ^ 64"
    and le: "sz \<le> max_size"
    and r: "run max_size (bit_vector_ctor sz) cs = Some v"
  shows "num_bits v = sz \<and>
         (\<exists>s. to_string max_size v = Returns s v \<and> length s = unat (num_bits v) \<and>
            (\<forall>pos. pos < num_bits v \<longrightarrow>
               s ! unat pos = (if test v pos = Returns True v then CHR ''1'' else CHR ''0'')))"
proof -
  have "unat sz \<le> unat max_size" using le by (simp add: word_le_nat_alt)
  then have "unat sz + 7 < 2 ^ 64" using m by linarith
  then obtain v' where "run max_size (bit_vector_ctor sz) cs = Some v'"
    and "num_bits v' = sz" and "structure_ok v'"
    using run_from_ctor [of sz max_size cs] by blast
  then have n: "num_bits v = sz" and ok: "storage_ok v"
    using r by (simp_all add: structure_ok_def)
  have "num_bits v \<le> max_size" using n le by simp
  then show ?thesis
    using n to_string_matches_test [OF ok] by simp
qed

text \<open>
  The vector constructed with size 10 after set at 3 and set at 7, with a
  \<^verbatim>\<open>max_size()\<close> of \<open>2^63 - 1\<close>.
\<close>

theorem to_string_within_max_size_witness:
  "unat (9223372036854775807 :: size_t) + 7 < 2 ^ 64 \<and>
   (10 :: size_t) \<le> 9223372036854775807 \<and>
   run 9223372036854775807 (bit_vector_ctor 10) [Set 3, Set 7] =
     Some \<lparr>data = [136, 0], num_bits = 10\<rparr> \<and>
   num_bits \<lparr>data = [136, 0], num_bits = 10\<rparr> = 10 \<and>
   (\<exists>s. to_string 9223372036854775807 \<lparr>data = [136, 0], num_bits = 10\<rparr> =
          Returns s \<lparr>data = [136, 0], num_bits = 10\<rparr> \<and>
        length s = unat (num_bits \<lparr>data = [136, 0], num_bits = 10\<rparr>) \<and>
        (\<forall>pos. pos < num_bits \<lparr>data = [136, 0], num_bits = 10\<rparr> \<longrightarrow>
           s ! unat pos =
             (if test \<lparr>data = [136, 0], num_bits = 10\<rparr> pos =
                   Returns True \<lparr>data = [136, 0], num_bits = 10\<rparr>
              then CHR ''1'' else CHR ''0'')))"
proof -
  have h1: "unat (9223372036854775807 :: size_t) + 7 < 2 ^ 64" by simp
  have h2: "(10 :: size_t) \<le> 9223372036854775807" by simp
  have h3: "run 9223372036854775807 (bit_vector_ctor 10) [Set 3, Set 7] =
      Some \<lparr>data = [136, 0], num_bits = 10\<rparr>"
    by code_simp
  show ?thesis
    using h1 h2 h3 to_string_within_max_size [OF h1 h2 h3] by blast
qed

text \<open>
  Claim C3: for every vector and every position \<open>pos\<close> at or beyond its capacity, each of
  set, clear, toggle and test throws \<^verbatim>\<open>std::out_of_range\<close>, and the vector at the throw is
  the vector the call started with (capacity and every byte of the storage unchanged).
\<close>

theorem out_of_range_access:
  "num_bits v \<le> pos \<Longrightarrow>
     set_bv v pos = Throws out_of_range v \<and> clear v pos = Throws out_of_range v \<and>
     toggle v pos = Throws out_of_range v \<and> test v pos = Throws out_of_range v"
  by (simp add: set_bv_def clear_def toggle_def test_def)

text \<open>The vector of capacity 10 at the position 10, the first one out of range.\<close>

theorem out_of_range_access_witness:
  "num_bits (bit_vector_ctor 10) \<le> 10 \<and>
   set_bv (bit_vector_ctor 10) 10 = Throws out_of_range (bit_vector_ctor 10) \<and>
   clear (bit_vector_ctor 10) 10 = Throws out_of_range (bit_vector_ctor 10) \<and>
   toggle (bit_vector_ctor 10) 10 = Throws out_of_range (bit_vector_ctor 10) \<and>
   test (bit_vector_ctor 10) 10 = Throws out_of_range (bit_vector_ctor 10)"
proof -
  have h: "num_bits (bit_vector_ctor 10) \<le> 10" by (simp add: bit_vector_ctor_def)
  show ?thesis using h out_of_range_access [OF h] by simp
qed

text \<open>
  Claim C4 (for every size the constructed vector has \<open>\<lceil>size / 8\<rceil>\<close> zero bytes of
  storage and test is false at every position below the size). The vector constructed with
  size \<open>2^64 - 1\<close> has no storage, where \<open>\<lceil>size / 8\<rceil>\<close> is \<open>2^61\<close>, and test at
  position 0, which is below the size, indexes the empty storage.
\<close>

theorem ctor_at_wrapped_size:
  "data (bit_vector_ctor 18446744073709551615) = [] \<and>
   (unat (num_bits (bit_vector_ctor 18446744073709551615)) + 7) div 8 = 2305843009213693952 \<and>
   test (bit_vector_ctor 18446744073709551615) 0 = Undefined"
proof (intro conjI)
  show "data (bit_vector_ctor 18446744073709551615) = []" by code_simp
  show "(unat (num_bits (bit_vector_ctor 18446744073709551615)) + 7) div 8 = 2305843009213693952"
    by (simp add: bit_vector_ctor_def)
  show "test (bit_vector_ctor 18446744073709551615) 0 = Undefined" by code_simp
qed

text \<open>
  Claim C5 (after set at a position below the capacity, test is true there; after a following
  clear, test is false; for every reachable vector). At the vector constructed with size
  \<open>2^64 - 1\<close>, set at position 0 indexes the empty storage.
\<close>

theorem set_at_wrapped_size: "set_bv (bit_vector_ctor 18446744073709551615) 0 = Undefined"
  by code_simp

text \<open>
  Claim C6 (toggle flips test at its position and two toggles restore the vector, for every
  reachable vector). At the vector constructed with size \<open>2^64 - 1\<close>, toggle at position
  0 indexes the empty storage.
\<close>

theorem toggle_at_wrapped_size: "toggle (bit_vector_ctor 18446744073709551615) 0 = Undefined"
  by code_simp

text \<open>
  Claim C7 (after any sequence of calls the capacity is the constructed one, the storage has
  \<open>\<lceil>capacity / 8\<rceil>\<close> bytes and the padding bits are zero). From the vector constructed
  with size \<open>2^64 - 1\<close>, the sequence of the single call \<^verbatim>\<open>size()\<close> ends in a vector of
  that capacity whose storage is empty, so not of \<open>\<lceil>capacity / 8\<rceil>\<close> bytes, and the sequence
  of the single call \<^verbatim>\<open>set(0)\<close> has no state to end in.
\<close>

theorem structure_at_wrapped_size:
  "run max_size (bit_vector_ctor 18446744073709551615) [Size] =
     Some \<lparr>data = [], num_bits = 18446744073709551615\<rparr> \<and>
   \<not> storage_ok \<lparr>data = [], num_bits = 18446744073709551615\<rparr> \<and>
   run max_size (bit_vector_ctor 18446744073709551615) [Set 0] = None"
proof (intro conjI)
  show "run max_size (bit_vector_ctor 18446744073709551615) [Size] =
     Some \<lparr>data = [], num_bits = 18446744073709551615\<rparr>"
    by (simp add: size_bv_def ctor_wraps_numeral)
  show "\<not> storage_ok \<lparr>data = [], num_bits = 18446744073709551615\<rparr>"
    by (simp add: storage_ok_def)
  show "run max_size (bit_vector_ctor 18446744073709551615) [Set 0] = None"
    by (simp add: set_bv_def ctor_wraps_numeral)
qed

text \<open>
  Claim C8: the vector constructed with size 10, after set at 3 and set at 7, has count 2,
  text \<open>0001000100\<close>, test true at 3 and test false at 4. Each call is evaluated on the
  vector the previous one returned. The text needs a C++ library whose strings can hold 10
  characters.
\<close>

theorem scenario_ten_bits:
  assumes "10 \<le> max_size"
  shows "bit_vector_ctor 10 = \<lparr>data = [0, 0], num_bits = 10\<rparr> \<and>
   set_bv \<lparr>data = [0, 0], num_bits = 10\<rparr> 3 = Returns () \<lparr>data = [8, 0], num_bits = 10\<rparr> \<and>
   set_bv \<lparr>data = [8, 0], num_bits = 10\<rparr> 7 = Returns () \<lparr>data = [136, 0], num_bits = 10\<rparr> \<and>
   count \<lparr>data = [136, 0], num_bits = 10\<rparr> = Returns 2 \<lparr>data = [136, 0], num_bits = 10\<rparr> \<and>
   to_string max_size \<lparr>data = [136, 0], num_bits = 10\<rparr> =
     Returns ''0001000100'' \<lparr>data = [136, 0], num_bits = 10\<rparr> \<and>
   test \<lparr>data = [136, 0], num_bits = 10\<rparr> 3 = Returns True \<lparr>data = [136, 0], num_bits = 10\<rparr> \<and>
   test \<lparr>data = [136, 0], num_bits = 10\<rparr> 4 = Returns False \<lparr>data = [136, 0], num_bits = 10\<rparr>"
proof (intro conjI)
  show "bit_vector_ctor 10 = \<lparr>data = [0, 0], num_bits = 10\<rparr>" by code_simp
  show "set_bv \<lparr>data = [0, 0], num_bits = 10\<rparr> 3 = Returns () \<lparr>data = [8, 0], num_bits = 10\<rparr>"
    by code_simp
  show "set_bv \<lparr>data = [8, 0], num_bits = 10\<rparr> 7 = Returns () \<lparr>data = [136, 0], num_bits = 10\<rparr>"
    by code_simp
  show "count \<lparr>data = [136, 0], num_bits = 10\<rparr> = Returns 2 \<lparr>data = [136, 0], num_bits = 10\<rparr>"
    by code_simp
  show "to_string max_size \<lparr>data = [136, 0], num_bits = 10\<rparr> =
     Returns ''0001000100'' \<lparr>data = [136, 0], num_bits = 10\<rparr>"
  proof -
    let ?v = "\<lparr>data = [136, 0], num_bits = 10\<rparr>"
    have ok: "storage_ok ?v" by (simp add: storage_ok_def)
    have le: "num_bits ?v \<le> max_size" using assms by simp
    have "map (\<lambda>p. if bit_at ?v p then CHR ''1'' else CHR ''0'') [0 ..< unat (num_bits ?v)] =
        ''0001000100''"
      by code_simp
    then show ?thesis using to_string_eval [OF ok le] by simp
  qed
  show "test \<lparr>data = [136, 0], num_bits = 10\<rparr> 3 = Returns True \<lparr>data = [136, 0], num_bits = 10\<rparr>"
    by code_simp
  show "test \<lparr>data = [136, 0], num_bits = 10\<rparr> 4 = Returns False \<lparr>data = [136, 0], num_bits = 10\<rparr>"
    by code_simp
qed

text \<open>The scenario with a \<^verbatim>\<open>max_size()\<close> of \<open>2^63 - 1\<close>.\<close>

theorem scenario_ten_bits_witness:
  "(10 :: size_t) \<le> 9223372036854775807 \<and>
   bit_vector_ctor 10 = \<lparr>data = [0, 0], num_bits = 10\<rparr> \<and>
   set_bv \<lparr>data = [0, 0], num_bits = 10\<rparr> 3 = Returns () \<lparr>data = [8, 0], num_bits = 10\<rparr> \<and>
   set_bv \<lparr>data = [8, 0], num_bits = 10\<rparr> 7 = Returns () \<lparr>data = [136, 0], num_bits = 10\<rparr> \<and>
   count \<lparr>data = [136, 0], num_bits = 10\<rparr> = Returns 2 \<lparr>data = [136, 0], num_bits = 10\<rparr> \<and>
   to_string 9223372036854775807 \<lparr>data = [136, 0], num_bits = 10\<rparr> =
     Returns ''0001000100'' \<lparr>data = [136, 0], num_bits = 10\<rparr> \<and>
   test \<lparr>data = [136, 0], num_bits = 10\<rparr> 3 = Returns True \<lparr>data = [136, 0], num_bits = 10\<rparr> \<and>
   test \<lparr>data = [136, 0], num_bits = 10\<rparr> 4 = Returns False \<lparr>data = [136, 0], num_bits = 10\<rparr>"
proof -
  have h: "(10 :: size_t) \<le> 9223372036854775807" by simp
  show ?thesis using h scenario_ten_bits [OF h] by blast
qed

text \<open>
  Claim C9: the vector constructed with size 0 has size 0, count 0 and the empty text
  (whatever \<^verbatim>\<open>max_size()\<close> of a string is), and set at position 0 throws
  \<^verbatim>\<open>std::out_of_range\<close> and leaves it as it was.
\<close>

theorem scenario_empty:
  "bit_vector_ctor 0 = \<lparr>data = [], num_bits = 0\<rparr> \<and>
   size_bv \<lparr>data = [], num_bits = 0\<rparr> = Returns 0 \<lparr>data = [], num_bits = 0\<rparr> \<and>
   count \<lparr>data = [], num_bits = 0\<rparr> = Returns 0 \<lparr>data = [], num_bits = 0\<rparr> \<and>
   to_string max_size \<lparr>data = [], num_bits = 0\<rparr> = Returns [] \<lparr>data = [], num_bits = 0\<rparr> \<and>
   set_bv \<lparr>data = [], num_bits = 0\<rparr> 0 = Throws out_of_range \<lparr>data = [], num_bits = 0\<rparr>"
proof (intro conjI)
  show "bit_vector_ctor 0 = \<lparr>data = [], num_bits = 0\<rparr>" by code_simp
  show "size_bv \<lparr>data = [], num_bits = 0\<rparr> = Returns 0 \<lparr>data = [], num_bits = 0\<rparr>" by code_simp
  show "count \<lparr>data = [], num_bits = 0\<rparr> = Returns 0 \<lparr>data = [], num_bits = 0\<rparr>" by code_simp
  show "to_string max_size \<lparr>data = [], num_bits = 0\<rparr> = Returns [] \<lparr>data = [], num_bits = 0\<rparr>"
    by (simp add: to_string_def to_string_loop.simps)
  show "set_bv \<lparr>data = [], num_bits = 0\<rparr> 0 = Throws out_of_range \<lparr>data = [], num_bits = 0\<rparr>"
    by code_simp
qed

text \<open>
  Claim C10 (set, clear and toggle at a position below the capacity leave test at every other
  position as it was, for every reachable vector). At the vector constructed with size
  \<open>2^64 - 1\<close>, clear at position 0 indexes the empty storage, and so does test at the
  other position 1, before the call as after it.
\<close>

theorem clear_at_wrapped_size:
  "clear (bit_vector_ctor 18446744073709551615) 0 = Undefined \<and>
   test (bit_vector_ctor 18446744073709551615) 1 = Undefined"
  by (intro conjI; code_simp)

end
